theory Spec2Isabelle
  imports Main "HOL-Library.Char_ord" "HOL-Library.List_Lexorder" "HOL-Library.Multiset"
begin

section \<open>Bank accounts\<close>

text \<open>
  \<^verbatim>\<open>class BankAccount { std::string accountNumber; float balance; ... }\<close>.
  The program only stores and copies a balance and never computes with it, so the type of
  balances is a parameter; \<^verbatim>\<open>Bank::addAccount\<close> needs its zero.  Account numbers are
  \<^verbatim>\<open>std::string\<close>s: byte strings, compared lexicographically byte by byte, a proper prefix
  being smaller (the order of \<open>Char_ord\<close> and \<open>List_Lexorder\<close>).
\<close>

record 'b BankAccount =
  accountNumber :: string
  balance :: 'b

text \<open>
  Indexing the array of buckets or a vector outside its bounds has no defined behaviour in
  C++, and neither has an \<^verbatim>\<open>int\<close> computation whose result an \<^verbatim>\<open>int\<close> cannot hold.  The model
  makes every such step a value, \<open>Inl OutOfRange\<close> or \<open>Inl SignedOverflow\<close>.
\<close>

datatype fault = OutOfRange | SignedOverflow

section \<open>MapAccountStorage\<close>

text \<open>The single member \<^verbatim>\<open>std::map<std::string, BankAccount> accounts\<close>.\<close>

type_synonym 'b MapAccountStorage = "string \<rightharpoonup> 'b BankAccount"

definition Map_init :: "'b MapAccountStorage" where
  "Map_init = Map.empty"

text \<open>\<^verbatim>\<open>accounts[account.getAccountNumber()] = account;\<close>\<close>

definition Map_addAccount :: "'b MapAccountStorage \<Rightarrow> 'b BankAccount \<Rightarrow> 'b MapAccountStorage" where
  "Map_addAccount accounts account = accounts(accountNumber account \<mapsto> account)"

text \<open>
  \<^verbatim>\<open>findAccount\<close> is not a const member, so every backend's model returns the storage after
  the call together with the result.  For the map the result is the record the returned
  pointer points to (\<^verbatim>\<open>&(it->second)\<close>), or \<open>None\<close> for \<^verbatim>\<open>nullptr\<close>.
\<close>

definition Map_findAccount ::
  "'b MapAccountStorage \<Rightarrow> string \<Rightarrow> 'b MapAccountStorage \<times> 'b BankAccount option" where
  "Map_findAccount accounts key =
     (case accounts key of
        Some account \<Rightarrow> (accounts, Some account)
      | None \<Rightarrow> (accounts, None))"

text \<open>
  Every entry of the map is stored under its own account number: \<^verbatim>\<open>addAccount\<close> is the only
  operation that inserts, and the map is empty at first.
\<close>

definition Map_inv :: "'b MapAccountStorage \<Rightarrow> bool" where
  "Map_inv m \<longleftrightarrow> (\<forall>k a. m k = Some a \<longrightarrow> accountNumber a = k)"

section \<open>DistributedVectorAccountStorage\<close>

text \<open>
  \<^verbatim>\<open>std::vector<BankAccount> accounts[10]\<close>: ten vectors, addressed by an index.  The
  model is a function from indices to vectors of which only the indices below 10 are ever
  read or written; any other index is \<open>OutOfRange\<close>.
\<close>

type_synonym 'b DistributedVectorAccountStorage = "nat \<Rightarrow> 'b BankAccount list"

definition Dist_init :: "'b DistributedVectorAccountStorage" where
  "Dist_init = (\<lambda>_. [])"

text \<open>
  \<^verbatim>\<open>s[0]\<close> of a \<^verbatim>\<open>std::string\<close>: the first byte, and the terminating \<^verbatim>\<open>'\0'\<close> when the
  string is empty.
\<close>

definition firstChar :: "string \<Rightarrow> char" where
  "firstChar s = (case s of [] \<Rightarrow> CHR 0x00 | c # _ \<Rightarrow> c)"

text \<open>
  The value of a \<^verbatim>\<open>char\<close> promoted to \<^verbatim>\<open>int\<close>, for a signed 8-bit \<^verbatim>\<open>char\<close>.  (With an
  unsigned \<^verbatim>\<open>char\<close> the bytes from 128 on are positive instead of negative; the index
  computed by \<open>getRef\<close> is outside 0..9 for them either way.)
\<close>

definition char_to_int :: "char \<Rightarrow> int" where
  "char_to_int c = (if (of_char c :: nat) < 128 then int (of_char c) else int (of_char c) - 256)"

text \<open>
  \<^verbatim>\<open>int index = firstChar - '0'; return accounts[index];\<close>  The reference returned is
  represented by the index of the bucket.
\<close>

definition getRef :: "char \<Rightarrow> fault + nat" where
  "getRef c =
     (let index = char_to_int c - char_to_int CHR ''0''
      in if 0 \<le> index \<and> index < 10 then Inr (nat index) else Inl OutOfRange)"

text \<open>The decimal digits \<^verbatim>\<open>'0'\<close> to \<^verbatim>\<open>'9'\<close>, and the number a digit stands for.\<close>

definition isdigit :: "char \<Rightarrow> bool" where
  "isdigit c \<longleftrightarrow> CHR ''0'' \<le> c \<and> c \<le> CHR ''9''"

definition digit_value :: "char \<Rightarrow> nat" where
  "digit_value c = of_char c - of_char CHR ''0''"

definition Dist_addAccount ::
  "'b DistributedVectorAccountStorage \<Rightarrow> 'b BankAccount
     \<Rightarrow> fault + 'b DistributedVectorAccountStorage" where
  "Dist_addAccount accounts account =
     (case getRef (firstChar (accountNumber account)) of
        Inl f \<Rightarrow> Inl f
      | Inr i \<Rightarrow> Inr (accounts(i := accounts i @ [account])))"

text \<open>
  The range-for loop of \<^verbatim>\<open>findAccount\<close> over the bucket; \<open>j\<close> is the position of the head
  of the remaining part, and the position of the first match is returned.
\<close>

fun scan :: "'b BankAccount list \<Rightarrow> string \<Rightarrow> nat \<Rightarrow> nat option" where
  "scan [] key j = None"
| "scan (account # rest) key j =
     (if accountNumber account = key then Some j else scan rest key (Suc j))"

text \<open>
  The pointer \<^verbatim>\<open>&account\<close> returned is the pair of the bucket's index and the position in
  the bucket.
\<close>

definition Dist_findAccount ::
  "'b DistributedVectorAccountStorage \<Rightarrow> string
     \<Rightarrow> fault + 'b DistributedVectorAccountStorage \<times> (nat \<times> nat) option" where
  "Dist_findAccount accounts key =
     (case getRef (firstChar key) of
        Inl f \<Rightarrow> Inl f
      | Inr i \<Rightarrow> Inr (accounts, map_option (Pair i) (scan (accounts i) key 0)))"

text \<open>The storages a program can build: the empty one, and what successful adds make of it.\<close>

inductive Dist_reachable :: "'b DistributedVectorAccountStorage \<Rightarrow> bool" where
  init: "Dist_reachable Dist_init"
| add: "Dist_reachable d \<Longrightarrow> Dist_addAccount d account = Inr d' \<Longrightarrow> Dist_reachable d'"

section \<open>BinarySearchStorage\<close>

type_synonym 'b BinarySearchStorage = "'b BankAccount list"

definition Bin_init :: "'b BinarySearchStorage" where
  "Bin_init = []"

text \<open>
  \<^verbatim>\<open>std::sort\<close> with the comparator \<^verbatim>\<open>a.getAccountNumber() < b.getAccountNumber()\<close>.  The
  standard fixes its result only up to the order of records with equal account numbers: the
  result is a permutation of the argument in which no record precedes one with a smaller
  account number.  The sorting function is therefore a parameter \<open>srt\<close> of the model, and
  \<open>std_sort srt\<close> is what the standard says about it.
\<close>

definition std_sort :: "('b BankAccount list \<Rightarrow> 'b BankAccount list) \<Rightarrow> bool" where
  "std_sort srt \<longleftrightarrow> (\<forall>xs. mset (srt xs) = mset xs \<and> sorted (map accountNumber (srt xs)))"

definition sortAccounts ::
  "('b BankAccount list \<Rightarrow> 'b BankAccount list) \<Rightarrow> 'b BinarySearchStorage \<Rightarrow> 'b BinarySearchStorage" where
  "sortAccounts srt accounts = srt accounts"

definition Bin_addAccount :: "'b BinarySearchStorage \<Rightarrow> 'b BankAccount \<Rightarrow> 'b BinarySearchStorage" where
  "Bin_addAccount accounts account = accounts @ [account]"

text \<open>
  The integers of \<^verbatim>\<open>findAccount\<close>: \<^verbatim>\<open>left\<close>, \<^verbatim>\<open>right\<close> and \<^verbatim>\<open>mid\<close> are \<^verbatim>\<open>int\<close>s of 32 bits,
  \<^verbatim>\<open>accounts.size()\<close> is a \<^verbatim>\<open>size_t\<close> of 64 bits.  \<^verbatim>\<open>accounts.size() - 1\<close> is computed in
  \<^verbatim>\<open>size_t\<close>, where \<open>0 - 1\<close> wraps around; initialising the \<^verbatim>\<open>int\<close> \<^verbatim>\<open>right\<close> with it keeps the low
  32 bits, read in two's complement.
\<close>

definition INT_MAX :: int where
  "INT_MAX = 2 ^ 31 - 1"

definition size_t_pred :: "nat \<Rightarrow> nat" where
  "size_t_pred n = (n + 2 ^ 64 - 1) mod 2 ^ 64"

definition size_t_to_int :: "nat \<Rightarrow> int" where
  "size_t_to_int n = (let r = int (n mod 2 ^ 32) in if r \<le> INT_MAX then r else r - 2 ^ 32)"

text \<open>
  The \<^verbatim>\<open>while (left <= right)\<close> loop, on \<^verbatim>\<open>int\<close> values.  \<^verbatim>\<open>right - left\<close> and \<^verbatim>\<open>mid + 1\<close> are
  the computations that can leave the range of \<^verbatim>\<open>int\<close> (\<^verbatim>\<open>mid\<close> lies between \<^verbatim>\<open>left\<close> and
  \<^verbatim>\<open>right\<close>, and \<^verbatim>\<open>mid - 1\<close> is computed only after \<^verbatim>\<open>accounts[mid]\<close>, so for \<^verbatim>\<open>mid\<close> at
  least 0).  \<open>right - left\<close> is not negative inside the loop, so the division rounds as in
  C++.  The pointer \<^verbatim>\<open>&accounts[mid]\<close> is represented by \<open>mid\<close>.
\<close>

function bsearch :: "'b BankAccount list \<Rightarrow> string \<Rightarrow> int \<Rightarrow> int \<Rightarrow> fault + nat option" where
  "bsearch accounts key left right =
     (if left \<le> right then
        (if INT_MAX < right - left then Inl SignedOverflow
         else
           (let mid = left + (right - left) div 2 in
            if mid < 0 \<or> int (length accounts) \<le> mid then Inl OutOfRange
            else
              (let midAccountNumber = accountNumber (accounts ! nat mid) in
               if midAccountNumber = key then Inr (Some (nat mid))
               else if midAccountNumber < key then
                 (if INT_MAX < mid + 1 then Inl SignedOverflow
                  else bsearch accounts key (mid + 1) right)
               else bsearch accounts key left (mid - 1))))
      else Inr None)"
  by pat_completeness auto
termination
  by (relation "measure (\<lambda>(accounts, key, left, right). nat (right - left + 1))") auto

declare bsearch.simps [simp del]

text \<open>
  \<^verbatim>\<open>sortAccounts(); int left = 0, right = accounts.size() - 1; ...\<close>  For the empty vector
  \<^verbatim>\<open>right\<close> is \<open>-1\<close>; for a vector of more than \<open>2 ^ 31\<close> records \<^verbatim>\<open>right\<close> is not the last
  position any more.
\<close>

definition Bin_findAccount ::
  "('b BankAccount list \<Rightarrow> 'b BankAccount list) \<Rightarrow> 'b BinarySearchStorage \<Rightarrow> string
     \<Rightarrow> fault + 'b BinarySearchStorage \<times> nat option" where
  "Bin_findAccount srt accounts key =
     (let sorted_accounts = sortAccounts srt accounts in
      case bsearch sorted_accounts key 0 (size_t_to_int (size_t_pred (length sorted_accounts))) of
        Inl f \<Rightarrow> Inl f
      | Inr p \<Rightarrow> Inr (sorted_accounts, p))"

section \<open>IAccountStorage and Bank\<close>

text \<open>
  The three implementations of the interface, and the dispatch of its two virtual
  functions.  At the interface \<open>findAccount\<close> yields the record pointed to.
\<close>

datatype 'b IAccountStorage =
    MapS "'b MapAccountStorage"
  | DistS "'b DistributedVectorAccountStorage"
  | BinS "'b BinarySearchStorage"

fun addAccount :: "'b IAccountStorage \<Rightarrow> 'b BankAccount \<Rightarrow> fault + 'b IAccountStorage" where
  "addAccount (MapS m) account = Inr (MapS (Map_addAccount m account))"
| "addAccount (DistS d) account =
     (case Dist_addAccount d account of Inl f \<Rightarrow> Inl f | Inr d' \<Rightarrow> Inr (DistS d'))"
| "addAccount (BinS b) account = Inr (BinS (Bin_addAccount b account))"

fun findAccount ::
  "('b BankAccount list \<Rightarrow> 'b BankAccount list) \<Rightarrow> 'b IAccountStorage \<Rightarrow> string
     \<Rightarrow> fault + 'b IAccountStorage \<times> 'b BankAccount option" where
  "findAccount srt (MapS m) key =
     (case Map_findAccount m key of (m', r) \<Rightarrow> Inr (MapS m', r))"
| "findAccount srt (DistS d) key =
     (case Dist_findAccount d key of
        Inl f \<Rightarrow> Inl f
      | Inr (d', p) \<Rightarrow> Inr (DistS d', map_option (\<lambda>(i, j). d' i ! j) p))"
| "findAccount srt (BinS b) key =
     (case Bin_findAccount srt b key of
        Inl f \<Rightarrow> Inl f
      | Inr (b', p) \<Rightarrow> Inr (BinS b', map_option (\<lambda>i. b' ! i) p))"

text \<open>
  \<^verbatim>\<open>Bank::addAccount(std::string accountNumber)\<close> converts the string to a
  \<^verbatim>\<open>BankAccount\<close> with the constructor's default balance 0, passes it to the storage and
  returns \<^verbatim>\<open>true\<close>.
\<close>

definition Bank_addAccount ::
  "'b::zero IAccountStorage \<Rightarrow> string \<Rightarrow> fault + 'b IAccountStorage \<times> bool" where
  "Bank_addAccount accountStorage key =
     (case addAccount accountStorage \<lparr>accountNumber = key, balance = 0\<rparr> of
        Inl f \<Rightarrow> Inl f
      | Inr accountStorage' \<Rightarrow> Inr (accountStorage', True))"

definition Bank_getAccount ::
  "('b BankAccount list \<Rightarrow> 'b BankAccount list) \<Rightarrow> 'b IAccountStorage \<Rightarrow> string
     \<Rightarrow> fault + 'b IAccountStorage \<times> 'b BankAccount option" where
  "Bank_getAccount srt accountStorage key = findAccount srt accountStorage key"

text \<open>A caller adding the records of a list one after the other.\<close>

fun addAll :: "'b IAccountStorage \<Rightarrow> 'b BankAccount list \<Rightarrow> fault + 'b IAccountStorage" where
  "addAll st [] = Inr st"
| "addAll st (account # rest) =
     (case addAccount st account of Inl f \<Rightarrow> Inl f | Inr st' \<Rightarrow> addAll st' rest)"

section \<open>Queue\<close>

text \<open>
  \<^verbatim>\<open>template<typename T, size_t Capacity> class Queue\<close> with the members \<^verbatim>\<open>data\<close>,
  \<^verbatim>\<open>start\<close>, \<^verbatim>\<open>end\<close> and \<^verbatim>\<open>size\<close>.  The template parameter \<open>Capacity\<close> is an argument of
  the operations.
\<close>

record 'a Queue =
  q_data :: "'a list"
  q_start :: nat
  q_end :: nat
  q_size :: nat

text \<open>
  A queue object: the array has \<open>Capacity\<close> elements, and \<^verbatim>\<open>start\<close> and \<^verbatim>\<open>end\<close> are
  positions in it (they start at 0 and are only ever set to a remainder modulo
  \<open>Capacity\<close>).
\<close>

definition Queue_obj :: "nat \<Rightarrow> 'a Queue \<Rightarrow> bool" where
  "Queue_obj Capacity q \<longleftrightarrow>
     length (q_data q) = Capacity \<and> q_start q < Capacity \<and> q_end q < Capacity"

definition Queue_init :: "'a list \<Rightarrow> 'a Queue" where
  "Queue_init d = \<lparr>q_data = d, q_start = 0, q_end = 0, q_size = 0\<rparr>"

definition push :: "nat \<Rightarrow> 'a Queue \<Rightarrow> 'a \<Rightarrow> fault + 'a Queue \<times> bool" where
  "push Capacity q element =
     (if q_size q < Capacity then
        (if q_end q < length (q_data q) then
           Inr (q\<lparr>q_data := (q_data q)[q_end q := element],
                  q_end := (q_end q + 1) mod Capacity,
                  q_size := q_size q + 1\<rparr>, True)
         else Inl OutOfRange)
      else Inr (q, False))"

text \<open>
  \<^verbatim>\<open>pop\<close> has no test for the empty queue: \<^verbatim>\<open>--size\<close> on a \<^verbatim>\<open>size_t\<close> that is 0 wraps
  around (64-bit \<^verbatim>\<open>size_t\<close>).
\<close>

definition pop :: "nat \<Rightarrow> 'a Queue \<Rightarrow> fault + 'a Queue \<times> 'a" where
  "pop Capacity q =
     (if q_start q < length (q_data q) then
        Inr (q\<lparr>q_start := (q_start q + 1) mod Capacity,
               q_size := (q_size q + 2 ^ 64 - 1) mod 2 ^ 64\<rparr>, q_data q ! q_start q)
      else Inl OutOfRange)"

section \<open>The driver's account numbers\<close>

text \<open>\<^verbatim>\<open>std::to_string\<close> of a positive number, and the loop padding it with zeros in front.\<close>

definition digit_char :: "nat \<Rightarrow> char" where
  "digit_char d = char_of (48 + d)"

fun to_string :: "nat \<Rightarrow> string" where
  "to_string n = (if n < 10 then [digit_char n] else to_string (n div 10) @ [digit_char (n mod 10)])"

declare to_string.simps [simp del]

function pad :: "string \<Rightarrow> string" where
  "pad s = (if length s < 10 then pad (CHR ''0'' # s) else s)"
  by pat_completeness auto
termination
  by (relation "measure (\<lambda>s. 10 - length s)") auto

declare pad.simps [simp del]

text \<open>
  \<^verbatim>\<open>for (int i = 0; i < AntalAccounts; i++) bank.addAccount(pad(to_string(i + 1)));\<close>
\<close>

function populate :: "nat \<Rightarrow> nat \<Rightarrow> 'b::zero IAccountStorage \<Rightarrow> fault + 'b IAccountStorage" where
  "populate i AntalAccounts st =
     (if i < AntalAccounts then
        (case Bank_addAccount st (pad (to_string (i + 1))) of
           Inl f \<Rightarrow> Inl f
         | Inr (st', _) \<Rightarrow> populate (i + 1) AntalAccounts st')
      else Inr st)"
  by pat_completeness auto
termination
  by (relation "measure (\<lambda>(i, AntalAccounts, st). AntalAccounts - i)") auto

declare populate.simps [simp del]

section \<open>Auxiliary facts\<close>

subsection \<open>The linear scan\<close>

lemma scan_None: "scan xs key j = None \<longleftrightarrow> key \<notin> accountNumber ` set xs"
  by (induction xs arbitrary: j) auto

lemma scan_Some:
  "scan xs key j = Some p \<Longrightarrow>
     j \<le> p \<and> p - j < length xs \<and> accountNumber (xs ! (p - j)) = key \<and>
     (\<forall>q < p - j. accountNumber (xs ! q) \<noteq> key)"
proof (induction xs arbitrary: j)
  case Nil
  then show ?case by simp
next
  case (Cons a xs)
  show ?case
  proof (cases "accountNumber a = key")
    case True
    with Cons.prems show ?thesis by simp
  next
    case False
    with Cons.prems have s: "scan xs key (Suc j) = Some p" by simp
    from Cons.IH [OF s] have ih: "Suc j \<le> p" "p - Suc j < length xs"
      "accountNumber (xs ! (p - Suc j)) = key"
      "\<forall>q < p - Suc j. accountNumber (xs ! q) \<noteq> key" by auto
    from ih(1) have e: "p - j = Suc (p - Suc j)" by arith
    have "\<forall>q < p - j. accountNumber ((a # xs) ! q) \<noteq> key"
    proof (intro allI impI)
      fix q assume "q < p - j"
      then show "accountNumber ((a # xs) ! q) \<noteq> key"
        using False ih(4) e by (cases q) auto
    qed
    with ih e show ?thesis by simp
  qed
qed

lemma scan_find:
  "map_option (\<lambda>p. xs ! (p - j)) (scan xs key j) = List.find (\<lambda>a. accountNumber a = key) xs"
proof (induction xs arbitrary: j)
  case Nil
  then show ?case by simp
next
  case (Cons a xs)
  show ?case
  proof (cases "accountNumber a = key")
    case True
    then show ?thesis by simp
  next
    case False
    have "map_option (\<lambda>p. (a # xs) ! (p - j)) (scan xs key (Suc j))
        = map_option (\<lambda>p. xs ! (p - Suc j)) (scan xs key (Suc j))"
    proof (cases "scan xs key (Suc j)")
      case None
      then show ?thesis by simp
    next
      case (Some p)
      from scan_Some [OF Some] have "Suc j \<le> p" by simp
      then have "p - j = Suc (p - Suc j)" by arith
      with Some show ?thesis by simp
    qed
    with False Cons.IH [of "Suc j"] show ?thesis by simp
  qed
qed

lemma scan_first:
  assumes "key \<in> accountNumber ` set xs"
  shows "\<exists>j. scan xs key 0 = Some j \<and> j < length xs \<and> accountNumber (xs ! j) = key \<and>
             (\<forall>q < j. accountNumber (xs ! q) \<noteq> key)"
proof -
  from assms have "scan xs key 0 \<noteq> None" by (simp add: scan_None)
  then obtain j where j: "scan xs key 0 = Some j" by auto
  from scan_Some [OF j] j show ?thesis by simp
qed

lemma find_filter:
  "(\<And>x. P x \<Longrightarrow> Q x) \<Longrightarrow> List.find P (filter Q xs) = List.find P xs"
  by (induction xs) auto

subsection \<open>The binary search\<close>

text \<open>
  For a vector of fewer than \<open>2 ^ 31\<close> records \<^verbatim>\<open>right\<close> is the last position;
  \<open>size_t_to_int_wraps\<close> shows the first size at which it is not.  A result of the search is
  a position of the vector holding the key, inside the window; started inside the vector,
  with \<^verbatim>\<open>right\<close> below \<open>INT_MAX\<close>, the search neither leaves the vector nor overflows; and on a
  sorted vector it then finds a key that the window holds.
\<close>

lemma size_t_to_int_pred:
  assumes "n < 2 ^ 31"
  shows "size_t_to_int (size_t_pred n) = int n - 1"
proof (cases n)
  case 0
  then show ?thesis by (simp add: size_t_pred_def size_t_to_int_def INT_MAX_def)
next
  case (Suc m)
  with assms have m: "m < 2 ^ 31" by simp
  then have "m < 2 ^ 64" by (rule less_trans) simp
  with Suc have p: "size_t_pred n = m" by (simp add: size_t_pred_def)
  from m have "m < 2 ^ 32" by (rule less_trans) simp
  with m show ?thesis unfolding p using Suc
    by (simp add: size_t_to_int_def INT_MAX_def)
qed


lemma size_t_to_int_wraps: "size_t_to_int (size_t_pred (2 ^ 31 + 1)) = - (2 ^ 31)"
  by (simp add: size_t_pred_def size_t_to_int_def INT_MAX_def)


lemma bsearch_sound:
  "bsearch xs key l r = Inr (Some i) \<Longrightarrow>
     i < length xs \<and> accountNumber (xs ! i) = key \<and> l \<le> int i \<and> int i \<le> r"
proof (induction xs key l r rule: bsearch.induct)
  case (1 accounts key left right)
  let ?mid = "left + (right - left) div 2"
  from "1.prems" have lr: "left \<le> right"
    by (subst (asm) bsearch.simps) (simp split: if_splits)
  from "1.prems" lr have nov: "\<not> INT_MAX < right - left"
    by (subst (asm) bsearch.simps) (simp split: if_splits)
  from "1.prems" lr nov have inr: "\<not> (?mid < 0 \<or> int (length accounts) \<le> ?mid)"
    by (subst (asm) bsearch.simps) (simp add: Let_def split: if_splits)
  have mb: "left \<le> ?mid" "?mid \<le> right" using lr by auto
  show ?case
  proof (cases "accountNumber (accounts ! nat ?mid) = key")
    case True
    with "1.prems" lr nov inr have "i = nat ?mid"
      by (subst (asm) bsearch.simps) (simp add: Let_def)
    with True inr mb show ?thesis by auto
  next
    case False
    show ?thesis
    proof (cases "accountNumber (accounts ! nat ?mid) < key")
      case True
      with "1.prems" lr nov inr False have nov2: "\<not> INT_MAX < ?mid + 1"
        by (subst (asm) bsearch.simps) (simp add: Let_def split: if_splits)
      with "1.prems" lr nov inr False True
      have "bsearch accounts key (?mid + 1) right = Inr (Some i)"
        by (subst (asm) bsearch.simps) (simp add: Let_def)
      from "1.IH"(1) [OF lr nov refl inr refl False True nov2 this] mb show ?thesis by auto
    next
      case nlt: False
      with "1.prems" lr nov inr False have "bsearch accounts key left (?mid - 1) = Inr (Some i)"
        by (subst (asm) bsearch.simps) (simp add: Let_def)
      from "1.IH"(2) [OF lr nov refl inr refl False nlt this] mb show ?thesis by auto
    qed
  qed
qed

lemma bsearch_no_fault:
  "0 \<le> l \<Longrightarrow> r < int (length xs) \<Longrightarrow> r < INT_MAX \<Longrightarrow> bsearch xs key l r \<noteq> Inl f"
proof (induction xs key l r rule: bsearch.induct)
  case (1 accounts key left right)
  let ?mid = "left + (right - left) div 2"
  show ?case
  proof (cases "left \<le> right")
    case False
    then show ?thesis by (subst bsearch.simps) simp
  next
    case lr: True
    have mb: "left \<le> ?mid" "?mid \<le> right" using lr by auto
    from "1.prems" have nov: "\<not> INT_MAX < right - left" by simp
    from mb "1.prems" have nov2: "\<not> INT_MAX < ?mid + 1" by simp
    from mb "1.prems" have inr: "\<not> (?mid < 0 \<or> int (length accounts) \<le> ?mid)" by auto
    show ?thesis
    proof (cases "accountNumber (accounts ! nat ?mid) = key")
      case True
      with lr nov inr show ?thesis by (subst bsearch.simps) (simp add: Let_def)
    next
      case False
      show ?thesis
      proof (cases "accountNumber (accounts ! nat ?mid) < key")
        case True
        from "1.IH"(1) [OF lr nov refl inr refl False True nov2] "1.prems" mb
        have "bsearch accounts key (?mid + 1) right \<noteq> Inl f" by auto
        with lr nov nov2 inr False True show ?thesis by (subst bsearch.simps) (simp add: Let_def)
      next
        case nlt: False
        from "1.IH"(2) [OF lr nov refl inr refl False nlt] "1.prems" mb
        have "bsearch accounts key left (?mid - 1) \<noteq> Inl f" by auto
        with lr nov inr False nlt show ?thesis by (subst bsearch.simps) (simp add: Let_def)
      qed
    qed
  qed
qed

lemma bsearch_complete:
  "sorted (map accountNumber xs) \<Longrightarrow> 0 \<le> l \<Longrightarrow> r < int (length xs) \<Longrightarrow> r < INT_MAX \<Longrightarrow>
   l \<le> int i \<Longrightarrow> int i \<le> r \<Longrightarrow> accountNumber (xs ! i) = key \<Longrightarrow>
   \<exists>j. bsearch xs key l r = Inr (Some j)"
proof (induction xs key l r rule: bsearch.induct)
  case (1 accounts key left right)
  let ?mid = "left + (right - left) div 2"
  from "1.prems" have lr: "left \<le> right" by simp
  have mb: "left \<le> ?mid" "?mid \<le> right" using lr by auto
  from "1.prems" have nov: "\<not> INT_MAX < right - left" by simp
  from mb "1.prems" have nov2: "\<not> INT_MAX < ?mid + 1" by simp
  from mb "1.prems" have inr: "\<not> (?mid < 0 \<or> int (length accounts) \<le> ?mid)" by auto
  have ilen: "i < length accounts" using "1.prems" by auto
  have mlen: "nat ?mid < length accounts" using inr by auto
  have srt: "\<And>a b. a \<le> b \<Longrightarrow> b < length accounts \<Longrightarrow> accountNumber (accounts ! a) \<le> accountNumber (accounts ! b)"
    using "1.prems"(1) by (simp add: sorted_iff_nth_mono)
  show ?case
  proof (cases "accountNumber (accounts ! nat ?mid) = key")
    case True
    with lr nov inr show ?thesis by (subst bsearch.simps) (simp add: Let_def)
  next
    case False
    show ?thesis
    proof (cases "accountNumber (accounts ! nat ?mid) < key")
      case True
      have "\<not> i \<le> nat ?mid"
      proof
        assume "i \<le> nat ?mid"
        from srt [OF this mlen] True "1.prems"(7) show False by simp
      qed
      then have "?mid + 1 \<le> int i" by auto
      from "1.IH"(1) [OF lr nov refl inr refl False True nov2 "1.prems"(1)] "1.prems" this mb
      have "\<exists>j. bsearch accounts key (?mid + 1) right = Inr (Some j)" by auto
      with lr nov nov2 inr False True show ?thesis by (subst bsearch.simps) (simp add: Let_def)
    next
      case nlt: False
      have "\<not> nat ?mid \<le> i"
      proof
        assume "nat ?mid \<le> i"
        from srt [OF this ilen] nlt False "1.prems"(7) show False by simp
      qed
      then have "int i \<le> ?mid - 1" by auto
      from "1.IH"(2) [OF lr nov refl inr refl False nlt "1.prems"(1)] "1.prems" this mb
      have "\<exists>j. bsearch accounts key left (?mid - 1) = Inr (Some j)" by auto
      with lr nov inr False nlt show ?thesis by (subst bsearch.simps) (simp add: Let_def)
    qed
  qed
qed

subsection \<open>Bucket selection\<close>

text \<open>The index computed by \<open>getRef\<close> is inside the array exactly for the decimal digits.\<close>

lemma getRef_eq: "getRef c = (if isdigit c then Inr (digit_value c) else Inl OutOfRange)"
proof -
  have "of_char c < (256 :: nat)" by simp
  then show ?thesis
    by (auto simp add: getRef_def isdigit_def digit_value_def char_to_int_def less_eq_char_def Let_def
        simp del: nat_of_char_less_256)
qed

lemma Dist_init_apply: "Dist_init i = []"
  by (simp add: Dist_init_def)

lemma Dist_add_eq:
  "Dist_addAccount d v =
     (if isdigit (firstChar (accountNumber v))
      then Inr (d(digit_value (firstChar (accountNumber v)) :=
                   d (digit_value (firstChar (accountNumber v))) @ [v]))
      else Inl OutOfRange)"
  by (simp add: Dist_addAccount_def getRef_eq)

lemma Dist_find_eq:
  "Dist_findAccount d key =
     (if isdigit (firstChar key)
      then Inr (d, map_option (Pair (digit_value (firstChar key)))
                     (scan (d (digit_value (firstChar key))) key 0))
      else Inl OutOfRange)"
  by (simp add: Dist_findAccount_def getRef_eq)

lemma Dist_find_absent:
  "isdigit (firstChar key) \<Longrightarrow>
   key \<notin> accountNumber ` set (d (digit_value (firstChar key))) \<Longrightarrow>
   Dist_findAccount d key = Inr (d, None)"
  by (simp add: Dist_find_eq scan_None)

lemma Dist_reachable_bucket:
  "Dist_reachable d \<Longrightarrow> a \<in> set (d i) \<Longrightarrow>
     isdigit (firstChar (accountNumber a)) \<and> digit_value (firstChar (accountNumber a)) = i"
proof (induction arbitrary: a i rule: Dist_reachable.induct)
  case init
  then show ?case by (simp add: Dist_init_apply)
next
  case (add d v d')
  let ?iv = "digit_value (firstChar (accountNumber v))"
  from add.hyps(2) have dv: "isdigit (firstChar (accountNumber v))" and d': "d' = d(?iv := d ?iv @ [v])"
    by (auto simp add: Dist_add_eq split: if_splits)
  show ?case
  proof (cases "a \<in> set (d i)")
    case True
    then show ?thesis by (rule add.IH)
  next
    case False
    with add.prems d' have "i = ?iv \<and> a = v" by (auto split: if_splits)
    with dv show ?thesis by simp
  qed
qed

subsection \<open>Sorting, then searching\<close>

text \<open>The insertion sort of the library is one function that fits \<open>std_sort\<close>.\<close>

lemma std_sort_sort_key: "std_sort (sort_key accountNumber)"
  by (simp add: std_sort_def)

lemma std_sort_set: "std_sort srt \<Longrightarrow> set (srt xs) = set xs"
  by (metis std_sort_def mset_eq_setD)

lemma std_sort_length: "std_sort srt \<Longrightarrow> length (srt xs) = length xs"
  by (metis std_sort_def mset_eq_length)


lemma Bin_right:
  assumes "std_sort srt" and "length b < 2 ^ 31"
  shows "size_t_to_int (size_t_pred (length (srt b))) = int (length (srt b)) - 1"
    and "int (length (srt b)) - 1 < INT_MAX"
proof -
  from assms have l: "length (srt b) < 2 ^ 31" by (simp add: std_sort_length)
  then show "size_t_to_int (size_t_pred (length (srt b))) = int (length (srt b)) - 1"
    by (rule size_t_to_int_pred)
  from l show "int (length (srt b)) - 1 < INT_MAX" by (simp add: INT_MAX_def)
qed


lemma Bin_find_present:
  assumes "std_sort srt" and "length b < 2 ^ 31" and "key \<in> accountNumber ` set b"
  shows "\<exists>i. Bin_findAccount srt b key = Inr (srt b, Some i) \<and> i < length (srt b) \<and>
             accountNumber (srt b ! i) = key"
proof -
  note r = Bin_right [OF assms(1,2)]
  from assms have "key \<in> accountNumber ` set (srt b)" by (simp add: std_sort_set)
  then obtain i where i: "i < length (srt b)" "accountNumber (srt b ! i) = key"
    by (auto simp add: in_set_conv_nth)
  from assms(1) have s: "sorted (map accountNumber (srt b))" by (simp add: std_sort_def)
  from i r(2) have "\<exists>j. bsearch (srt b) key 0 (int (length (srt b)) - 1) = Inr (Some j)"
    by (intro bsearch_complete [OF s, where i = i]) auto
  then obtain j where j: "bsearch (srt b) key 0 (int (length (srt b)) - 1) = Inr (Some j)" ..
  from bsearch_sound [OF j] j show ?thesis
    by (simp add: Bin_findAccount_def sortAccounts_def r(1))
qed


subsection \<open>The map\<close>

lemma Map_find_eq: "Map_findAccount m key = (m, m key)"
  by (simp add: Map_findAccount_def split: option.splits)

lemma Map_find_absent: "accounts key = None \<Longrightarrow> Map_findAccount accounts key = (accounts, None)"
  by (simp add: Map_find_eq)

lemma Map_inv_init: "Map_inv Map_init"
  by (simp add: Map_inv_def Map_init_def)

lemma Map_inv_add: "Map_inv m \<Longrightarrow> Map_inv (Map_addAccount m a)"
  by (simp add: Map_inv_def Map_addAccount_def)

subsection \<open>Sequences of adds\<close>



lemma addAll_Dist:
  "addAll (DistS d) vs =
     (if \<forall>a \<in> set vs. isdigit (firstChar (accountNumber a))
      then Inr (DistS (\<lambda>i. d i @ filter (\<lambda>a. digit_value (firstChar (accountNumber a)) = i) vs))
      else Inl OutOfRange)"
proof (induction vs arbitrary: d)
  case Nil
  show ?case by simp
next
  case (Cons a vs)
  show ?case
  proof (cases "isdigit (firstChar (accountNumber a))")
    case False
    then show ?thesis by (simp add: Dist_add_eq)
  next
    case True
    let ?i = "digit_value (firstChar (accountNumber a))"
    have eq: "(\<lambda>i. (d(?i := d ?i @ [a])) i @ filter (\<lambda>a. digit_value (firstChar (accountNumber a)) = i) vs)
        = (\<lambda>i. d i @ filter (\<lambda>a. digit_value (firstChar (accountNumber a)) = i) (a # vs))"
      by (rule ext) simp
    from True have step: "addAll (DistS d) (a # vs) = addAll (DistS (d(?i := d ?i @ [a]))) vs"
      by (simp add: Dist_add_eq)
    show ?thesis
      by (simp only: step Cons.IH eq) (simp add: True)
  qed
qed


lemma Dist_lookup_find:
  assumes "isdigit (firstChar key)"
  shows "findAccount srt (DistS (\<lambda>i. filter (\<lambda>a. digit_value (firstChar (accountNumber a)) = i) vs)) key
     = Inr (DistS (\<lambda>i. filter (\<lambda>a. digit_value (firstChar (accountNumber a)) = i) vs),
            List.find (\<lambda>a. accountNumber a = key) vs)"
proof -
  let ?i = "digit_value (firstChar key)"
  let ?b = "filter (\<lambda>a. digit_value (firstChar (accountNumber a)) = ?i) vs"
  have "map_option (\<lambda>p. ?b ! (p - 0)) (scan ?b key 0) = List.find (\<lambda>a. accountNumber a = key) ?b"
    by (rule scan_find)
  also have "\<dots> = List.find (\<lambda>a. accountNumber a = key) vs"
    by (rule find_filter) simp
  finally show ?thesis using assms
    by (simp add: Dist_find_eq option.map_comp comp_def)
qed



subsection \<open>The driver's loop\<close>

lemma populate_addAll:
  "populate i n st =
     addAll st (map (\<lambda>k. \<lparr>accountNumber = pad (to_string (k + 1)), balance = 0\<rparr>) [i..<n])"
proof (induction i n st rule: populate.induct)
  case (1 i n st)
  show ?case
  proof (cases "i < n")
    case False
    then show ?thesis by (subst populate.simps) simp
  next
    case True
    then have u: "[i..<n] = i # [i + 1..<n]" by (simp add: upt_conv_Cons)
    show ?thesis
    proof (cases "Bank_addAccount st (pad (to_string (i + 1)))")
      case (Inl f)
      with True show ?thesis
        by (subst populate.simps) (simp add: u Bank_addAccount_def split: sum.splits)
    next
      case (Inr p)
      obtain st' r where p: "p = (st', r)" by (cases p)
      from "1.IH" [OF True Inr [unfolded p] refl] True Inr p show ?thesis
        by (subst populate.simps) (simp add: u Bank_addAccount_def split: sum.splits)
    qed
  qed
qed

lemma length_to_string: "0 < k \<Longrightarrow> m < 10 ^ k \<Longrightarrow> length (to_string m) \<le> k"
proof (induction k arbitrary: m)
  case 0
  then show ?case by simp
next
  case (Suc k)
  show ?case
  proof (cases "m < 10")
    case True
    then show ?thesis by (subst to_string.simps) simp
  next
    case False
    with Suc.prems have k: "0 < k" by (cases k) auto
    from Suc.prems have "m div 10 < 10 ^ k" by (simp add: less_mult_imp_div_less mult.commute)
    from Suc.IH [OF k this] False show ?thesis by (subst to_string.simps) simp
  qed
qed

lemma firstChar_pad: "length s < 10 \<Longrightarrow> firstChar (pad s) = CHR ''0''"
proof (induction s rule: pad.induct)
  case (1 s)
  show ?case
  proof (cases "length (CHR ''0'' # s) < 10")
    case True
    from "1.IH" [OF "1.prems" True] "1.prems" show ?thesis by (subst pad.simps) simp
  next
    case False
    then have "pad (CHR ''0'' # s) = CHR ''0'' # s" by (subst pad.simps) simp
    with "1.prems" show ?thesis by (subst pad.simps) (simp add: firstChar_def)
  qed
qed

lemma keys_populated:
  assumes "n < 10 ^ 9"
  shows "list_all (\<lambda>a. firstChar (accountNumber a) = CHR ''0'')
     (map (\<lambda>k. \<lparr>accountNumber = pad (to_string (k + 1)), balance = 0::'b::zero\<rparr>) [0..<n])"
proof -
  have "firstChar (pad (to_string (k + 1))) = CHR ''0''" if "k < n" for k
  proof -
    from that assms have "k + 1 < 10 ^ 9" by simp
    then have "length (to_string (k + 1)) \<le> 9" by (intro length_to_string) simp_all
    then show ?thesis by (intro firstChar_pad) simp
  qed
  then show ?thesis by (simp add: list_all_iff)
qed

lemma find_populated:
  assumes "k < n" and "pad (to_string (k + 1)) = key"
  shows "List.find (\<lambda>a. accountNumber a = key)
           (map (\<lambda>k. \<lparr>accountNumber = pad (to_string (k + 1)), balance = 0::'b::zero\<rparr>) [0..<n])
         = Some \<lparr>accountNumber = key, balance = 0\<rparr>"
proof -
  let ?mk = "\<lambda>k. \<lparr>accountNumber = pad (to_string (k + 1)), balance = 0::'b\<rparr>"
  let ?vs = "map ?mk [0..<n]"
  from assms(1) have "k \<in> set [0..<n]" by simp
  then have "?mk k \<in> set ?vs" unfolding set_map by (rule imageI)
  moreover from assms(2) have "accountNumber (?mk k) = key" by simp
  ultimately
  have "List.find (\<lambda>a. accountNumber a = key) ?vs \<noteq> None"
    unfolding find_None_iff by blast
  then obtain x where x: "List.find (\<lambda>a. accountNumber a = key) ?vs = Some x" by auto
  then have "accountNumber x = key" "x \<in> set ?vs" by (auto simp add: find_Some_iff)
  then have "x = \<lparr>accountNumber = key, balance = 0\<rparr>" by auto
  with x show ?thesis by simp
qed

lemma key_first: "pad (to_string (0 + 1)) = ''0000000001''"
  by code_simp

lemma key_last: "pad (to_string (999 + 1)) = ''0000001000''"
  by code_simp

lemma scenario_general:
  assumes "list_all (\<lambda>a. firstChar (accountNumber a) = CHR ''0'') vs"
    and "firstChar k1 = CHR ''0''"
    and "firstChar k2 = CHR ''0''"
    and "List.find (\<lambda>a. accountNumber a = k1) vs = Some r1"
    and "List.find (\<lambda>a. accountNumber a = k2) vs = Some r2"
  shows "\<exists>d. addAll (DistS Dist_init) vs = Inr (DistS d) \<and>
       Bank_getAccount srt (DistS d) k1 = Inr (DistS d, Some r1) \<and>
       Bank_getAccount srt (DistS d) k2 = Inr (DistS d, Some r2) \<and>
       Bank_getAccount srt (DistS d) ''notfound'' = Inl OutOfRange"
proof -
  let ?d = "\<lambda>i. filter (\<lambda>a. digit_value (firstChar (accountNumber a)) = i) vs"
  have z: "isdigit CHR ''0''" by (simp add: isdigit_def)
  from assms(1) have "\<forall>a \<in> set vs. isdigit (firstChar (accountNumber a))"
    unfolding list_all_iff using z by simp
  then have 1: "addAll (DistS Dist_init) vs = Inr (DistS ?d)"
    by (simp add: addAll_Dist Dist_init_apply)
  have 2: "Bank_getAccount srt (DistS ?d) k1 = Inr (DistS ?d, Some r1)"
    unfolding Bank_getAccount_def assms(4) [symmetric]
    by (rule Dist_lookup_find) (simp add: assms(2) z)
  have 3: "Bank_getAccount srt (DistS ?d) k2 = Inr (DistS ?d, Some r2)"
    unfolding Bank_getAccount_def assms(5) [symmetric]
    by (rule Dist_lookup_find) (simp add: assms(3) z)
  have 4: "Bank_getAccount srt (DistS ?d) ''notfound'' = Inl OutOfRange"
    by (simp add: Bank_getAccount_def Dist_findAccount_def getRef_def char_to_int_def firstChar_def)
  from 1 2 3 4 show ?thesis by blast
qed

subsection \<open>Queue objects\<close>

lemma Queue_obj_init: "0 < Capacity \<Longrightarrow> length d = Capacity \<Longrightarrow> Queue_obj Capacity (Queue_init d)"
  by (simp add: Queue_obj_def Queue_init_def)

lemma Queue_obj_pop:
  assumes "Queue_obj Capacity q" and "pop Capacity q = Inr (q', x)"
  shows "Queue_obj Capacity q'"
proof -
  from assms(1) have c: "0 < Capacity" "length (q_data q) = Capacity" "q_end q < Capacity"
    by (auto simp add: Queue_obj_def)
  from assms(2) have q': "q_data q' = q_data q" "q_end q' = q_end q"
    "q_start q' = (q_start q + 1) mod Capacity"
    by (auto simp add: pop_def split: if_splits)
  from c(1) have "q_start q' < Capacity" unfolding q' by (rule mod_less_divisor)
  with c q' show ?thesis by (simp add: Queue_obj_def)
qed

section \<open>Finding a record right after adding it\<close>

text \<open>
  Claim C1, as amended.  Right after \<open>addAccount\<close> of a record \<open>v\<close>, \<open>findAccount\<close> with
  \<open>v\<close>'s account number
  \<^item> on a \<open>MapAccountStorage\<close> returns \<open>v\<close>;
  \<^item> on a \<open>DistributedVectorAccountStorage\<close>, when the number begins with a decimal digit,
    returns a position of the digit's bucket that holds a record with that number; the
    record is \<open>v\<close> itself if every record the bucket held before with that number equals
    \<open>v\<close> (in particular if there was none);
  \<^item> on a \<open>BinarySearchStorage\<close> that holds fewer than \<open>2 ^ 31\<close> records after the add
    (the sizes that the 32-bit \<^verbatim>\<open>int\<close> indices of the search can address), whatever order
    \<^verbatim>\<open>std::sort\<close> gives records with equal numbers (\<open>std_sort srt\<close>), returns a position of
    the sorted vector that holds a record with that number; the record is \<open>v\<close> itself if
    every record stored before with that number equals \<open>v\<close>.
\<close>

theorem find_after_add:
  "Map_findAccount (Map_addAccount m v) (accountNumber v) = (Map_addAccount m v, Some v) \<and>
   (isdigit (firstChar (accountNumber v)) \<longrightarrow>
      (\<exists>d' j. Dist_addAccount d v = Inr d' \<and>
         Dist_findAccount d' (accountNumber v)
           = Inr (d', Some (digit_value (firstChar (accountNumber v)), j)) \<and>
         j < length (d' (digit_value (firstChar (accountNumber v)))) \<and>
         accountNumber (d' (digit_value (firstChar (accountNumber v))) ! j) = accountNumber v \<and>
         ((\<forall>a \<in> set (d (digit_value (firstChar (accountNumber v)))).
              accountNumber a = accountNumber v \<longrightarrow> a = v) \<longrightarrow>
            d' (digit_value (firstChar (accountNumber v))) ! j = v))) \<and>
   (std_sort srt \<longrightarrow> length (Bin_addAccount b v) < 2 ^ 31 \<longrightarrow>
      (\<exists>b' j. Bin_findAccount srt (Bin_addAccount b v) (accountNumber v) = Inr (b', Some j) \<and>
         j < length b' \<and> accountNumber (b' ! j) = accountNumber v \<and>
         ((\<forall>a \<in> set b. accountNumber a = accountNumber v \<longrightarrow> a = v) \<longrightarrow> b' ! j = v)))"
proof (intro conjI impI)
  show "Map_findAccount (Map_addAccount m v) (accountNumber v) = (Map_addAccount m v, Some v)"
    by (simp add: Map_find_eq Map_addAccount_def)
next
  let ?k = "accountNumber v"
  let ?i = "digit_value (firstChar ?k)"
  let ?d = "d(?i := d ?i @ [v])"
  assume dg: "isdigit (firstChar ?k)"
  have "?k \<in> accountNumber ` set (?d ?i)" by simp
  from scan_first [OF this] obtain j where j: "scan (?d ?i) ?k 0 = Some j"
    "j < length (?d ?i)" "accountNumber (?d ?i ! j) = ?k" by blast
  have "(\<forall>a \<in> set (d ?i). accountNumber a = ?k \<longrightarrow> a = v) \<longrightarrow> ?d ?i ! j = v"
  proof
    assume h: "\<forall>a \<in> set (d ?i). accountNumber a = ?k \<longrightarrow> a = v"
    from j(2) have "?d ?i ! j \<in> set (?d ?i)" by (rule nth_mem)
    then have "?d ?i ! j \<in> set (d ?i) \<or> ?d ?i ! j = v" by auto
    with h j(3) show "?d ?i ! j = v" by blast
  qed
  with j dg show "\<exists>d' j. Dist_addAccount d v = Inr d' \<and>
          Dist_findAccount d' ?k = Inr (d', Some (?i, j)) \<and>
          j < length (d' ?i) \<and> accountNumber (d' ?i ! j) = ?k \<and>
          ((\<forall>a \<in> set (d ?i). accountNumber a = ?k \<longrightarrow> a = v) \<longrightarrow> d' ?i ! j = v)"
    by (intro exI [of _ ?d] exI [of _ j]) (simp add: Dist_add_eq Dist_find_eq)
next
  let ?k = "accountNumber v"
  let ?b = "srt (b @ [v])"
  assume srt: "std_sort srt" and len: "length (Bin_addAccount b v) < 2 ^ 31"
  have "?k \<in> accountNumber ` set (Bin_addAccount b v)" by (simp add: Bin_addAccount_def)
  from Bin_find_present [OF srt len this] obtain j where
    j: "Bin_findAccount srt (Bin_addAccount b v) ?k = Inr (?b, Some j)"
       "j < length ?b" "accountNumber (?b ! j) = ?k"
    by (auto simp add: Bin_addAccount_def)
  have "(\<forall>a \<in> set b. accountNumber a = ?k \<longrightarrow> a = v) \<longrightarrow> ?b ! j = v"
  proof
    assume h: "\<forall>a \<in> set b. accountNumber a = ?k \<longrightarrow> a = v"
    from j(2) have "?b ! j \<in> set ?b" by (rule nth_mem)
    then have "?b ! j \<in> set b \<or> ?b ! j = v" by (auto simp add: std_sort_set [OF srt])
    with h j(3) show "?b ! j = v" by blast
  qed
  with j show "\<exists>b' j. Bin_findAccount srt (Bin_addAccount b v) ?k = Inr (b', Some j) \<and>
       j < length b' \<and> accountNumber (b' ! j) = ?k \<and>
       ((\<forall>a \<in> set b. accountNumber a = ?k \<longrightarrow> a = v) \<longrightarrow> b' ! j = v)"
    by blast
qed

text \<open>The amended claim at concrete storages and records.\<close>

theorem find_after_add_witness:
  "Map_findAccount (Map_addAccount Map_init \<lparr>accountNumber = ''12'', balance = 3::int\<rparr>) ''12''
     = (Map_addAccount Map_init \<lparr>accountNumber = ''12'', balance = 3\<rparr>,
        Some \<lparr>accountNumber = ''12'', balance = 3\<rparr>) \<and>
   (\<exists>d' j. Dist_addAccount Dist_init \<lparr>accountNumber = ''12'', balance = 3::int\<rparr> = Inr d' \<and>
      Dist_findAccount d' ''12'' = Inr (d', Some (1, j)) \<and> d' 1 ! j = \<lparr>accountNumber = ''12'', balance = 3\<rparr>) \<and>
   (\<exists>b' j. Bin_findAccount (sort_key accountNumber)
              (Bin_addAccount [\<lparr>accountNumber = ''20'', balance = 0\<rparr>] \<lparr>accountNumber = ''12'', balance = 3::int\<rparr>) ''12''
            = Inr (b', Some j) \<and> b' ! j = \<lparr>accountNumber = ''12'', balance = 3\<rparr>)"
  using find_after_add [where v = "\<lparr>accountNumber = ''12'', balance = 3::int\<rparr>"
      and m = Map_init and d = Dist_init and b = "[\<lparr>accountNumber = ''20'', balance = 0\<rparr>]"
      and srt = "sort_key accountNumber"] std_sort_sort_key [where 'a = int]
  by (simp add: isdigit_def digit_value_def firstChar_def Dist_init_apply Bin_addAccount_def) blast

text \<open>
  The claim as it was stated fails when the storage already holds a record with the same
  account number and another balance: after adding \<open>(''1'', 5)\<close> and then \<open>v = (''1'', 7)\<close> to
  the empty bucketed storage, \<open>findAccount ''1''\<close> returns position 0 of bucket 1, which
  holds \<open>(''1'', 5)\<close> and not \<open>v\<close>.
\<close>

theorem find_after_add_counterexample:
  "Dist_addAccount Dist_init \<lparr>accountNumber = ''1'', balance = 5::int\<rparr>
     = Inr (Dist_init(1 := [\<lparr>accountNumber = ''1'', balance = 5\<rparr>])) \<and>
   Dist_addAccount (Dist_init(1 := [\<lparr>accountNumber = ''1'', balance = 5::int\<rparr>]))
       \<lparr>accountNumber = ''1'', balance = 7\<rparr>
     = Inr (Dist_init(1 := [\<lparr>accountNumber = ''1'', balance = 5\<rparr>, \<lparr>accountNumber = ''1'', balance = 7\<rparr>])) \<and>
   Dist_findAccount
       (Dist_init(1 := [\<lparr>accountNumber = ''1'', balance = 5::int\<rparr>, \<lparr>accountNumber = ''1'', balance = 7\<rparr>])) ''1''
     = Inr (Dist_init(1 := [\<lparr>accountNumber = ''1'', balance = 5\<rparr>, \<lparr>accountNumber = ''1'', balance = 7\<rparr>]),
            Some (1, 0)) \<and>
   (Dist_init(1 := [\<lparr>accountNumber = ''1'', balance = 5::int\<rparr>, \<lparr>accountNumber = ''1'', balance = 7\<rparr>])) 1 ! 0
     = \<lparr>accountNumber = ''1'', balance = 5\<rparr> \<and>
   \<lparr>accountNumber = ''1'', balance = 5::int\<rparr> \<noteq> \<lparr>accountNumber = ''1'', balance = 7\<rparr>"
  by (simp add: Dist_addAccount_def Dist_findAccount_def Dist_init_def getRef_def firstChar_def
      char_to_int_def)

section \<open>What \<open>findAccount\<close> does to the storage\<close>

text \<open>
  Claim C2.  \<open>Map_findAccount\<close> returns the storage it was given, for every storage and
  key.  \<open>Bin_findAccount\<close>, on every call, first replaces the vector by \<open>sortAccounts\<close> of it:
  with \<^verbatim>\<open>std::sort\<close> doing what the standard says (\<open>std_sort srt\<close>), that vector is sorted
  ascending by account number and holds the same records as before (as a multiset).  For a
  storage of fewer than \<open>2 ^ 31\<close> records (the sizes that the 32-bit \<^verbatim>\<open>int\<close> indices can
  address) the call then runs the binary search on that sorted vector from \<open>0\<close> to
  \<open>size - 1\<close>, without indexing outside the vector or overflowing, and returns with the
  sorted vector as the storage.  And for every storage and key, the storage after a call
  that returns is the sorted vector: sorting is all the call does to the storage.
\<close>

theorem find_effect_on_storage:
  "fst (Map_findAccount m key) = m \<and>
   (std_sort srt \<longrightarrow>
      sorted (map accountNumber (sortAccounts srt b)) \<and> mset (sortAccounts srt b) = mset b) \<and>
   (std_sort srt \<longrightarrow> length b < 2 ^ 31 \<longrightarrow>
      (\<exists>p. Bin_findAccount srt b key = Inr (sortAccounts srt b, p) \<and>
           bsearch (sortAccounts srt b) key 0 (int (length (sortAccounts srt b)) - 1) = Inr p)) \<and>
   (\<forall>b' p. Bin_findAccount srt b key = Inr (b', p) \<longrightarrow> b' = sortAccounts srt b)"
proof (intro conjI impI allI)
  show "fst (Map_findAccount m key) = m"
    by (simp add: Map_find_eq)
next
  assume "std_sort srt"
  then show "sorted (map accountNumber (sortAccounts srt b))" "mset (sortAccounts srt b) = mset b"
    by (simp_all add: std_sort_def sortAccounts_def)
next
  assume srt: "std_sort srt" and len: "length b < 2 ^ 31"
  note r = Bin_right [OF srt len]
  let ?r = "bsearch (srt b) key 0 (int (length (srt b)) - 1)"
  have nf: "\<And>f. ?r \<noteq> Inl f" using r(2) by (intro bsearch_no_fault) auto
  then obtain p where p: "?r = Inr p" by (cases ?r) auto
  then have "Bin_findAccount srt b key = Inr (sortAccounts srt b, p)"
    by (simp add: Bin_findAccount_def sortAccounts_def r(1))
  with p show "\<exists>p. Bin_findAccount srt b key = Inr (sortAccounts srt b, p) \<and>
        bsearch (sortAccounts srt b) key 0 (int (length (sortAccounts srt b)) - 1) = Inr p"
    by (simp add: sortAccounts_def)
next
  fix b' p
  assume "Bin_findAccount srt b key = Inr (b', p)"
  then show "b' = sortAccounts srt b"
    by (simp add: Bin_findAccount_def Let_def split: sum.splits)
qed

theorem find_effect_on_storage_witness:
  "fst (Map_findAccount (Map_init :: int MapAccountStorage) ''7'') = Map_init \<and>
   (\<exists>p. Bin_findAccount (sort_key accountNumber)
           [\<lparr>accountNumber = ''2'', balance = 0::int\<rparr>, \<lparr>accountNumber = ''1'', balance = 0\<rparr>] ''7''
         = Inr ([\<lparr>accountNumber = ''1'', balance = 0\<rparr>, \<lparr>accountNumber = ''2'', balance = 0\<rparr>], p)) \<and>
   sorted (map accountNumber (sortAccounts (sort_key accountNumber)
           [\<lparr>accountNumber = ''2'', balance = 0::int\<rparr>, \<lparr>accountNumber = ''1'', balance = 0\<rparr>]))"
proof -
  let ?b = "[\<lparr>accountNumber = ''2'', balance = 0::int\<rparr>, \<lparr>accountNumber = ''1'', balance = 0\<rparr>]"
  have len: "length ?b < 2 ^ 31" by simp
  from find_effect_on_storage [where srt = "sort_key accountNumber"
     and m = "Map_init :: int MapAccountStorage" and key = "''7''" and b = ?b]
    std_sort_sort_key [where 'a = int] len
  show ?thesis by (auto simp add: sortAccounts_def)
qed

section \<open>The driver's scenario on the bucketed storage\<close>

text \<open>
  Claim C3, evaluated on the code.  The driver's loop with 1000 accounts fills the empty
  \<open>DistributedVectorAccountStorage\<close> without a fault; \<open>getAccount\<close> of \<open>''0000000001''\<close> and of
  \<open>''0000001000''\<close> returns the record with that number and balance 0; but \<open>getAccount\<close> of
  \<open>''notfound''\<close> does not return the null pointer: \<open>getRef\<close> computes the index
  \<open>'n' - '0' = 62\<close> and indexes the array of ten buckets with it.
\<close>

theorem scenario_bucketed:
  "\<exists>d. populate 0 1000 (DistS Dist_init) = Inr (DistS d) \<and>
       Bank_getAccount srt (DistS d) ''0000000001''
         = Inr (DistS d, Some \<lparr>accountNumber = ''0000000001'', balance = 0::int\<rparr>) \<and>
       Bank_getAccount srt (DistS d) ''0000001000''
         = Inr (DistS d, Some \<lparr>accountNumber = ''0000001000'', balance = 0\<rparr>) \<and>
       Bank_getAccount srt (DistS d) ''notfound'' = Inl OutOfRange"
proof -
  have k1: "firstChar ''0000000001'' = CHR ''0''" by (simp add: firstChar_def)
  have k2: "firstChar ''0000001000'' = CHR ''0''" by (simp add: firstChar_def)
  show ?thesis
    unfolding populate_addAll
    by (rule scenario_general [OF keys_populated k1 k2 find_populated [OF _ key_first]
          find_populated [OF _ key_last]]) simp_all
qed

section \<open>Looking up an account number that was never added\<close>

text \<open>
  Claim C4, evaluated on the code.  On the map, on the sorted vector (of fewer than
  \<open>2 ^ 31\<close> records), and on the bucketed storage for a number that begins with a decimal
  digit, a number that was never added is answered with the null pointer
  (\<open>Map_find_absent\<close>, \<open>Bin_find_absent\<close>, \<open>Dist_find_absent\<close>).  On the bucketed storage a number that does not begin with a
  decimal digit is not: for \<open>''notfound''\<close>, and for the empty string, \<open>findAccount\<close> indexes
  the array of buckets out of range, already on the empty storage.
\<close>

theorem find_absent_key_out_of_range:
  "Dist_findAccount Dist_init ''notfound'' = Inl OutOfRange \<and>
   Dist_findAccount Dist_init [] = Inl OutOfRange \<and>
   findAccount srt (DistS Dist_init) ''notfound'' = Inl OutOfRange \<and>
   Bank_getAccount srt (DistS Dist_init) ''notfound'' = Inl OutOfRange"
  by (simp add: Bank_getAccount_def Dist_findAccount_def getRef_def char_to_int_def firstChar_def)

section \<open>Overwriting in the map\<close>

text \<open>
  Claim C5.  When two records with the same account number are added to a
  \<open>MapAccountStorage\<close> one after the other, \<open>findAccount\<close> with that number returns the second
  record; the storage is the one that adding the second record alone would have given; and
  if the records differ and the map is one whose entries sit under their own account
  numbers (as in every map built by \<open>addAccount\<close>: \<open>Map_inv_init\<close>, \<open>Map_inv_add\<close>), no key at
  all retrieves the first one any more.
\<close>

theorem Map_overwrite:
  assumes "accountNumber a1 = accountNumber a2"
  shows "Map_findAccount (Map_addAccount (Map_addAccount m a1) a2) (accountNumber a1)
           = (Map_addAccount (Map_addAccount m a1) a2, Some a2) \<and>
         Map_addAccount (Map_addAccount m a1) a2 = Map_addAccount m a2 \<and>
         (Map_inv m \<longrightarrow> a1 \<noteq> a2 \<longrightarrow>
            (\<forall>key. snd (Map_findAccount (Map_addAccount (Map_addAccount m a1) a2) key) \<noteq> Some a1))"
  using assms by (auto simp add: Map_find_eq Map_addAccount_def Map_inv_def)

theorem Map_overwrite_witness:
  "Map_findAccount (Map_addAccount (Map_addAccount Map_init \<lparr>accountNumber = ''1'', balance = 5::int\<rparr>)
        \<lparr>accountNumber = ''1'', balance = 7\<rparr>) ''1''
     = (Map_addAccount (Map_addAccount Map_init \<lparr>accountNumber = ''1'', balance = 5\<rparr>)
        \<lparr>accountNumber = ''1'', balance = 7\<rparr>, Some \<lparr>accountNumber = ''1'', balance = 7\<rparr>) \<and>
   (\<forall>key. snd (Map_findAccount (Map_addAccount (Map_addAccount Map_init \<lparr>accountNumber = ''1'', balance = 5::int\<rparr>)
        \<lparr>accountNumber = ''1'', balance = 7\<rparr>) key) \<noteq> Some \<lparr>accountNumber = ''1'', balance = 5\<rparr>)"
proof -
  let ?a1 = "\<lparr>accountNumber = ''1'', balance = 5::int\<rparr>"
  let ?a2 = "\<lparr>accountNumber = ''1'', balance = 7::int\<rparr>"
  have k: "accountNumber ?a1 = accountNumber ?a2" by simp
  have ne: "?a1 \<noteq> ?a2" by simp
  have "accountNumber ?a1 = ''1''" by simp
  with Map_overwrite [OF k, of Map_init] Map_inv_init [where 'a = int] ne show ?thesis by metis
qed

section \<open>The buckets partition the records\<close>

text \<open>
  Claim C6.  \<open>addAccount\<close> of a record whose account number begins with a decimal digit
  appends it to the bucket with that digit's value and leaves the other buckets alone.  In
  every storage built from the empty one by such adds, each record of bucket \<open>i\<close> has an
  account number beginning with the digit of value \<open>i\<close>.  And when \<open>findAccount\<close> finds
  something in such a storage, it is a position in the bucket of the queried number's first
  digit, the record there has the queried number, the storage is unchanged, and every
  stored record whose first digit differs from the queried number's lies in another bucket
  and is not the record found.
\<close>

theorem bucket_partition:
  "(isdigit (firstChar (accountNumber v)) \<longrightarrow>
      Dist_addAccount d v =
        Inr (d(digit_value (firstChar (accountNumber v)) :=
                 d (digit_value (firstChar (accountNumber v))) @ [v]))) \<and>
   (Dist_reachable d \<longrightarrow>
      (\<forall>i. \<forall>a \<in> set (d i).
          isdigit (firstChar (accountNumber a)) \<and> digit_value (firstChar (accountNumber a)) = i)) \<and>
   (Dist_reachable d \<longrightarrow>
      (\<forall>d' i j. Dist_findAccount d key = Inr (d', Some (i, j)) \<longrightarrow>
          d' = d \<and> isdigit (firstChar key) \<and> i = digit_value (firstChar key) \<and>
          j < length (d i) \<and> accountNumber (d i ! j) = key \<and>
          (\<forall>i'. \<forall>a \<in> set (d i').
              digit_value (firstChar (accountNumber a)) \<noteq> digit_value (firstChar key) \<longrightarrow>
              i' \<noteq> i \<and> d i ! j \<noteq> a)))"
proof (intro conjI impI allI)
  assume "isdigit (firstChar (accountNumber v))"
  then show "Dist_addAccount d v =
        Inr (d(digit_value (firstChar (accountNumber v)) :=
                 d (digit_value (firstChar (accountNumber v))) @ [v]))"
    by (simp add: Dist_add_eq)
next
  fix i
  assume "Dist_reachable d"
  then show "\<forall>a \<in> set (d i).
          isdigit (firstChar (accountNumber a)) \<and> digit_value (firstChar (accountNumber a)) = i"
    using Dist_reachable_bucket by blast
next
  fix d' i j
  assume r: "Dist_reachable d" and f: "Dist_findAccount d key = Inr (d', Some (i, j))"
  let ?i = "digit_value (firstChar key)"
  from f have dk: "isdigit (firstChar key)" and e: "d' = d" "i = ?i"
    and s: "scan (d ?i) key 0 = Some j"
    by (auto simp add: Dist_find_eq split: if_splits)
  from scan_Some [OF s] have j: "j < length (d ?i)" "accountNumber (d ?i ! j) = key" by simp_all
  show "d' = d" by (rule e)
  show "isdigit (firstChar key)" by (rule dk)
  show "i = ?i" by (rule e)
  show "j < length (d i)" using j e by simp
  show "accountNumber (d i ! j) = key" using j e by simp
  show "\<forall>a \<in> set (d i'). digit_value (firstChar (accountNumber a)) \<noteq> ?i \<longrightarrow> i' \<noteq> i \<and> d i ! j \<noteq> a" for i'
  proof (intro ballI impI)
    fix a assume a: "a \<in> set (d i')" and ne: "digit_value (firstChar (accountNumber a)) \<noteq> ?i"
    from Dist_reachable_bucket [OF r a] ne e have "i' \<noteq> i" by simp
    moreover from ne j e have "d i ! j \<noteq> a" by auto
    ultimately show "i' \<noteq> i \<and> d i ! j \<noteq> a" ..
  qed
qed

theorem bucket_partition_witness:
  "Dist_addAccount (Dist_init(1 := [\<lparr>accountNumber = ''12'', balance = 0::int\<rparr>]))
       \<lparr>accountNumber = ''25'', balance = 0\<rparr>
     = Inr (Dist_init(1 := [\<lparr>accountNumber = ''12'', balance = 0\<rparr>],
                      2 := [\<lparr>accountNumber = ''25'', balance = 0\<rparr>])) \<and>
   Dist_reachable (Dist_init(1 := [\<lparr>accountNumber = ''12'', balance = 0::int\<rparr>],
                             2 := [\<lparr>accountNumber = ''25'', balance = 0\<rparr>])) \<and>
   Dist_findAccount (Dist_init(1 := [\<lparr>accountNumber = ''12'', balance = 0::int\<rparr>],
                               2 := [\<lparr>accountNumber = ''25'', balance = 0\<rparr>])) ''12''
     = Inr (Dist_init(1 := [\<lparr>accountNumber = ''12'', balance = 0\<rparr>],
                      2 := [\<lparr>accountNumber = ''25'', balance = 0\<rparr>]), Some (1, 0)) \<and>
   digit_value (firstChar ''25'') = 2 \<and>
   (Dist_init(1 := [\<lparr>accountNumber = ''12'', balance = 0::int\<rparr>],
              2 := [\<lparr>accountNumber = ''25'', balance = 0\<rparr>])) 1 ! 0
     \<noteq> \<lparr>accountNumber = ''25'', balance = 0\<rparr>"
proof -
  let ?a = "\<lparr>accountNumber = ''12'', balance = 0::int\<rparr>"
  let ?v = "\<lparr>accountNumber = ''25'', balance = 0::int\<rparr>"
  let ?d1 = "Dist_init(1 := [?a])"
  let ?d2 = "Dist_init(1 := [?a], 2 := [?v])"
  have dv: "isdigit (firstChar (accountNumber ?v))" "digit_value (firstChar (accountNumber ?v)) = 2"
    "digit_value (firstChar ''12'') = 1"
    by (simp_all add: isdigit_def digit_value_def firstChar_def)
  have a1: "Dist_addAccount Dist_init ?a = Inr ?d1"
    by (simp add: Dist_add_eq isdigit_def digit_value_def firstChar_def Dist_init_apply)
  from bucket_partition [of ?v ?d1 "''12''"] dv
  have a2: "Dist_addAccount ?d1 ?v = Inr ?d2"
    by (simp add: Dist_init_apply)
  have r: "Dist_reachable ?d2"
    by (rule Dist_reachable.add [OF Dist_reachable.add [OF Dist_reachable.init a1] a2])
  have f: "Dist_findAccount ?d2 ''12'' = Inr (?d2, Some (1, 0))"
    by (simp add: Dist_find_eq isdigit_def digit_value_def firstChar_def)
  from bucket_partition [of ?v ?d2 "''12''"] r f dv(3)
  have "\<forall>i'. \<forall>a \<in> set (?d2 i'). digit_value (firstChar (accountNumber a)) \<noteq> 1 \<longrightarrow>
          i' \<noteq> 1 \<and> ?d2 1 ! 0 \<noteq> a"
    by (metis One_nat_def)
  moreover have "?v \<in> set (?d2 2)" by simp
  moreover from dv(2) have "digit_value (firstChar (accountNumber ?v)) \<noteq> 1" by simp
  ultimately have "?d2 1 ! 0 \<noteq> ?v" by blast
  with a2 r f dv(2) show ?thesis by simp
qed

section \<open>Duplicates in the bucketed storage\<close>

text \<open>
  Claim C7.  After any sequence of adds to the empty \<open>DistributedVectorAccountStorage\<close>
  (all of them successful), each bucket holds, in the order of insertion, all the records
  added whose first digit has the bucket's value: nothing is dropped or merged, so records
  with the same account number coexist.  For a number that occurs among the records added,
  \<open>findAccount\<close> returns the position, in the bucket of the number's first digit, of the
  earliest record added with that number; no earlier position of the bucket holds the
  number, and the storage is unchanged.
\<close>

theorem duplicates_first_match:
  assumes "addAll (DistS Dist_init) vs = Inr (DistS d)"
  shows "(\<forall>i. d i = filter (\<lambda>a. digit_value (firstChar (accountNumber a)) = i) vs) \<and>
         (\<forall>a. List.find (\<lambda>a. accountNumber a = key) vs = Some a \<longrightarrow>
            (\<exists>j. Dist_findAccount d key = Inr (d, Some (digit_value (firstChar key), j)) \<and>
                 j < length (d (digit_value (firstChar key))) \<and>
                 d (digit_value (firstChar key)) ! j = a \<and>
                 (\<forall>q < j. accountNumber (d (digit_value (firstChar key)) ! q) \<noteq> key)))"
proof (intro conjI allI impI)
  let ?i = "digit_value (firstChar key)"
  from assms have dg: "\<forall>a \<in> set vs. isdigit (firstChar (accountNumber a))"
    and d: "d = (\<lambda>i. filter (\<lambda>a. digit_value (firstChar (accountNumber a)) = i) vs)"
    by (auto simp add: addAll_Dist Dist_init_apply split: if_splits)
  show "d i = filter (\<lambda>a. digit_value (firstChar (accountNumber a)) = i) vs" for i
    by (simp add: d)
  fix a assume a: "List.find (\<lambda>a. accountNumber a = key) vs = Some a"
  then have "a \<in> set vs" "accountNumber a = key" by (auto simp add: find_Some_iff)
  with dg have dk: "isdigit (firstChar key)" by auto
  have "map_option (\<lambda>p. d ?i ! (p - 0)) (scan (d ?i) key 0) = List.find (\<lambda>a. accountNumber a = key) (d ?i)"
    by (rule scan_find)
  also have "\<dots> = List.find (\<lambda>a. accountNumber a = key) vs"
    unfolding d by (rule find_filter) simp
  finally obtain j where j: "scan (d ?i) key 0 = Some j" "d ?i ! j = a"
    using a by auto
  from scan_Some [OF j(1)] j dk
  show "\<exists>j. Dist_findAccount d key = Inr (d, Some (?i, j)) \<and> j < length (d ?i) \<and> d ?i ! j = a \<and>
            (\<forall>q < j. accountNumber (d ?i ! q) \<noteq> key)"
    by (simp add: Dist_find_eq)
qed

theorem duplicates_first_match_witness:
  "addAll (DistS Dist_init)
     [\<lparr>accountNumber = ''12'', balance = 5::int\<rparr>, \<lparr>accountNumber = ''20'', balance = 1\<rparr>,
      \<lparr>accountNumber = ''12'', balance = 7\<rparr>]
     = Inr (DistS (Dist_init(1 := [\<lparr>accountNumber = ''12'', balance = 5\<rparr>, \<lparr>accountNumber = ''12'', balance = 7\<rparr>],
                             2 := [\<lparr>accountNumber = ''20'', balance = 1\<rparr>]))) \<and>
   (\<exists>j. Dist_findAccount
           (Dist_init(1 := [\<lparr>accountNumber = ''12'', balance = 5::int\<rparr>, \<lparr>accountNumber = ''12'', balance = 7\<rparr>],
                      2 := [\<lparr>accountNumber = ''20'', balance = 1\<rparr>])) ''12''
         = Inr (Dist_init(1 := [\<lparr>accountNumber = ''12'', balance = 5\<rparr>, \<lparr>accountNumber = ''12'', balance = 7\<rparr>],
                          2 := [\<lparr>accountNumber = ''20'', balance = 1\<rparr>]), Some (1, j)) \<and>
        (Dist_init(1 := [\<lparr>accountNumber = ''12'', balance = 5::int\<rparr>, \<lparr>accountNumber = ''12'', balance = 7\<rparr>],
                   2 := [\<lparr>accountNumber = ''20'', balance = 1\<rparr>])) 1 ! j
          = \<lparr>accountNumber = ''12'', balance = 5\<rparr>)"
proof -
  let ?vs = "[\<lparr>accountNumber = ''12'', balance = 5::int\<rparr>, \<lparr>accountNumber = ''20'', balance = 1\<rparr>,
      \<lparr>accountNumber = ''12'', balance = 7\<rparr>]"
  let ?d = "Dist_init(1 := [\<lparr>accountNumber = ''12'', balance = 5::int\<rparr>, \<lparr>accountNumber = ''12'', balance = 7\<rparr>],
                      2 := [\<lparr>accountNumber = ''20'', balance = 1\<rparr>])"
  have h: "addAll (DistS Dist_init) ?vs = Inr (DistS ?d)"
    by (simp add: Dist_addAccount_def getRef_def char_to_int_def firstChar_def Dist_init_apply fun_upd_twist)
  have k: "digit_value (firstChar ''12'') = 1" by (simp add: digit_value_def firstChar_def)
  have "List.find (\<lambda>a. accountNumber a = ''12'') ?vs = Some \<lparr>accountNumber = ''12'', balance = 5\<rparr>"
    by simp
  with duplicates_first_match [OF h, of "''12''"] k
  have "\<exists>j. Dist_findAccount ?d ''12'' = Inr (?d, Some (1, j)) \<and>
            ?d 1 ! j = \<lparr>accountNumber = ''12'', balance = 5\<rparr>"
    by (metis One_nat_def)
  with h show ?thesis by blast
qed

section \<open>The three backends agree\<close>



section \<open>The bank in front of a storage\<close>

text \<open>
  \<open>Bank_addAccount\<close> passes the record with the given account number and balance zero to
  the storage's \<open>addAccount\<close>; whenever it returns, it returns true together with the storage
  that this \<open>addAccount\<close> produced, and it returns whenever that \<open>addAccount\<close> does: always
  on a map and on a sorted vector, and on the bucketed storage for a number beginning with
  a decimal digit.  \<open>Bank_getAccount\<close> is the storage's \<open>findAccount\<close>.  For any other number
  the bucketed \<open>addAccount\<close> indexes the array of buckets out of range, and
  \<^verbatim>\<open>return true\<close> is never reached.
\<close>

lemma Bank_facade:
  "(\<forall>st' r. Bank_addAccount st key = Inr (st', r) \<longrightarrow>
       r = True \<and> addAccount st \<lparr>accountNumber = key, balance = 0\<rparr> = Inr st') \<and>
   (\<forall>st'. addAccount st \<lparr>accountNumber = key, balance = 0\<rparr> = Inr st' \<longrightarrow>
       Bank_addAccount st key = Inr (st', True)) \<and>
   Bank_addAccount (MapS m) key
     = Inr (MapS (Map_addAccount m \<lparr>accountNumber = key, balance = 0\<rparr>), True) \<and>
   Bank_addAccount (BinS b) key
     = Inr (BinS (Bin_addAccount b \<lparr>accountNumber = key, balance = 0\<rparr>), True) \<and>
   (isdigit (firstChar key) \<longrightarrow>
      (\<exists>d'. Dist_addAccount d \<lparr>accountNumber = key, balance = 0\<rparr> = Inr d' \<and>
            Bank_addAccount (DistS d) key = Inr (DistS d', True))) \<and>
   Bank_getAccount srt st key = findAccount srt st key"
  by (auto simp add: Bank_addAccount_def Bank_getAccount_def Dist_add_eq split: sum.splits)

lemma Bank_addAccount_fault:
  "\<not> isdigit (firstChar key) \<Longrightarrow> Bank_addAccount (DistS d) key = Inl OutOfRange"
  by (simp add: Bank_addAccount_def Dist_add_eq)

text \<open>
  Claim C9, evaluated on the code.  For the key \<open>''notfound''\<close> the bank in front of the empty
  map and the bank in front of the empty sorted vector add the record with balance zero and
  return true, but the bank in front of the empty \<open>DistributedVectorAccountStorage\<close> does not
  return true: \<open>getRef\<close> indexes the array of ten buckets with \<open>'n' - '0' = 62\<close>.
\<close>

theorem Bank_addAccount_out_of_range:
  "Bank_addAccount (DistS Dist_init) ''notfound'' = Inl OutOfRange \<and>
   Bank_addAccount (MapS Map_init) ''notfound''
     = Inr (MapS (Map_addAccount Map_init \<lparr>accountNumber = ''notfound'', balance = 0\<rparr>), True) \<and>
   Bank_addAccount (BinS Bin_init) ''notfound''
     = Inr (BinS (Bin_addAccount Bin_init \<lparr>accountNumber = ''notfound'', balance = 0\<rparr>), True)"
  by (simp add: Bank_addAccount_def Dist_addAccount_def getRef_def char_to_int_def firstChar_def)

section \<open>The queue at full capacity\<close>

text \<open>
  Claim C10.  For a queue object of capacity \<open>Capacity\<close>: with \<open>size < Capacity\<close>, \<open>push\<close>
  returns true, writes the element at position \<open>end\<close> (the back), advances \<open>end\<close> circularly
  and increments \<open>size\<close>, leaving \<open>start\<close> alone; with \<open>size = Capacity\<close> it returns false and
  the queue is unchanged.  So a \<open>size\<close> that is at most \<open>Capacity\<close> stays so under \<open>push\<close>, and
  the result is again a queue object.
\<close>

theorem push_capacity:
  "(Queue_obj Capacity q \<longrightarrow> q_size q < Capacity \<longrightarrow>
      push Capacity q element =
        Inr (q\<lparr>q_data := (q_data q)[q_end q := element],
               q_end := (q_end q + 1) mod Capacity,
               q_size := q_size q + 1\<rparr>, True) \<and>
      (q_data q)[q_end q := element] ! q_end q = element) \<and>
   (q_size q = Capacity \<longrightarrow> push Capacity q element = Inr (q, False)) \<and>
   (\<forall>q' r. Queue_obj Capacity q \<longrightarrow> q_size q \<le> Capacity \<longrightarrow>
      push Capacity q element = Inr (q', r) \<longrightarrow>
      q_size q' \<le> Capacity \<and> Queue_obj Capacity q')"
  by (auto simp add: push_def Queue_obj_def)

theorem push_capacity_witness:
  "push 2 \<lparr>q_data = [0, 0::int], q_start = 0, q_end = 1, q_size = 1\<rparr> 7
     = Inr (\<lparr>q_data = [0, 7], q_start = 0, q_end = 0, q_size = 2\<rparr>, True) \<and>
   push 2 \<lparr>q_data = [0, 7::int], q_start = 0, q_end = 0, q_size = 2\<rparr> 9
     = Inr (\<lparr>q_data = [0, 7], q_start = 0, q_end = 0, q_size = 2\<rparr>, False) \<and>
   Queue_obj 2 \<lparr>q_data = [0, 7::int], q_start = 0, q_end = 0, q_size = 2\<rparr>"
proof -
  let ?q1 = "\<lparr>q_data = [0, 0::int], q_start = 0, q_end = 1, q_size = 1\<rparr>"
  let ?q2 = "\<lparr>q_data = [0, 7::int], q_start = 0, q_end = 0, q_size = 2\<rparr>"
  have o: "Queue_obj 2 ?q1" by (simp add: Queue_obj_def)
  have s: "q_size ?q1 < 2" "q_size ?q1 \<le> 2" "q_size ?q2 = 2" by simp_all
  from push_capacity [of 2 ?q1 7] o s(1)
  have 1: "push 2 ?q1 7 = Inr (?q2, True)" by simp
  with push_capacity [of 2 ?q1 7] o s(2) have 2: "Queue_obj 2 ?q2" by blast
  from push_capacity [of 2 ?q2 9] s(3) have 3: "push 2 ?q2 9 = Inr (?q2, False)" by blast
  from 1 2 3 show ?thesis by blast
qed

end
